theory Spec2Isabelle
  imports Main "HOL-Library.AList"
begin

section \<open>Strings and objects of the source language\<close>

text \<open>
  The program is \<^verbatim>\<open>src/index.ts\<close>. Its strings are modelled as HOL strings over
  ASCII; on ASCII, \<^verbatim>\<open>String.prototype.toUpperCase\<close> maps \<^verbatim>\<open>a\<close>..\<^verbatim>\<open>z\<close> to
  \<^verbatim>\<open>A\<close>..\<^verbatim>\<open>Z\<close> and leaves every other character alone. Names with characters
  outside ASCII are outside the model: there the language's upper-casing follows Unicode
  and may change the length of a string, which \<^verbatim>\<open>upper_char\<close> does not do.
\<close>

definition upper_char :: "char \<Rightarrow> char" where
  "upper_char c =
     (case map_of (zip ''abcdefghijklmnopqrstuvwxyz'' ''ABCDEFGHIJKLMNOPQRSTUVWXYZ'') c of
        Some u \<Rightarrow> u
      | None \<Rightarrow> c)"

definition toUpperCase :: "string \<Rightarrow> string" where
  "toUpperCase s = map upper_char s"

text \<open>\<^verbatim>\<open>s.startsWith(p)\<close> and \<^verbatim>\<open>s.endsWith(p)\<close>.\<close>

definition startsWith :: "string \<Rightarrow> string \<Rightarrow> bool" where
  "startsWith s p = (take (length p) s = p)"

definition endsWith :: "string \<Rightarrow> string \<Rightarrow> bool" where
  "endsWith s p = (length p \<le> length s \<and> drop (length s - length p) s = p)"

text \<open>
  \<^verbatim>\<open>s.replace(pat, rep)\<close> with a string pattern: only the first occurrence of
  \<^verbatim>\<open>pat\<close>, searched from the left, is replaced.
\<close>

fun replace :: "string \<Rightarrow> string \<Rightarrow> string \<Rightarrow> string" where
  "replace [] pat rep = (if pat = [] then rep else [])"
| "replace (c # cs) pat rep =
     (if startsWith (c # cs) pat then rep @ drop (length pat) (c # cs)
      else c # replace cs pat rep)"

text \<open>\<^verbatim>\<open>parts.join(sep)\<close>.\<close>

fun join :: "string list \<Rightarrow> string \<Rightarrow> string" where
  "join [] sep = []"
| "join [x] sep = x"
| "join (x # y # ys) sep = x @ sep @ join (y # ys) sep"

text \<open>
  A \<^verbatim>\<open>Record<string, string>\<close> created by the literal \<^verbatim>\<open>{}\<close> is modelled by the list
  of its own properties in iteration order (the order of \<^verbatim>\<open>Object.keys\<close> and
  \<^verbatim>\<open>Object.entries\<close>). The assignment \<^verbatim>\<open>rules[key] = content\<close> is
  \<^const>\<open>AList.update\<close>: an existing key keeps its place and gets the new value, a new
  key goes to the end. (Keys that are array indices would be ordered first by the
  language; every key the scan assigns contains a hyphen after a non-empty prefix, so
  none is an index.)
\<close>

type_synonym rules = "(string \<times> string) list"

text \<open>
  The value of the property read \<^verbatim>\<open>rules[ruleType]\<close>. The object's prototype is
  \<^verbatim>\<open>Object.prototype\<close>, so a name that is no own property but a property of the
  prototype reads as the inherited function or object.
\<close>

datatype js_value = Undefined | Str string | Inherited string

definition object_prototype_keys :: "string list" where
  "object_prototype_keys =
     [''constructor'', ''hasOwnProperty'', ''isPrototypeOf'', ''propertyIsEnumerable'',
      ''toLocaleString'', ''toString'', ''valueOf'', ''__proto__'',
      ''__defineGetter__'', ''__defineSetter__'', ''__lookupGetter__'', ''__lookupSetter__'']"

definition get_property :: "rules \<Rightarrow> string \<Rightarrow> js_value" where
  "get_property obj k =
     (case map_of obj k of
        Some v \<Rightarrow> Str v
      | None \<Rightarrow> if k \<in> set object_prototype_keys then Inherited k else Undefined)"

text \<open>Truthiness, as the condition of an \<^verbatim>\<open>if\<close> reads a value.\<close>

fun truthy :: "js_value \<Rightarrow> bool" where
  "truthy Undefined = False"
| "truthy (Str s) = (s \<noteq> [])"
| "truthy (Inherited k) = True"

text \<open>Thrown values: an exception of the \<^verbatim>\<open>fs\<close> module, or \<^verbatim>\<open>new Error(message)\<close>.\<close>

datatype error = FsError | Error string

section \<open>The file system as the scan observes it\<close>

text \<open>
  One entry of \<^verbatim>\<open>readdirSync(rulesDir, { withFileTypes: true })\<close>, with what the
  file system answers below it: \<open>readdir\<close> is the outcome of
  \<^verbatim>\<open>readdirSync(toolDir)\<close>, an exception or the names found there, each name with the
  outcome of \<^verbatim>\<open>readFileSync(filePath, 'utf-8')\<close>, an exception or the content.
\<close>

datatype dirent =
  Dirent (name: string) (isDirectory: bool) (readdir: "error + (string \<times> (error + string)) list")

text \<open>
  The rules directory: \<open>Missing\<close> when \<^verbatim>\<open>existsSync(rulesDir)\<close> is false, otherwise the
  outcome of reading it.
\<close>

datatype rules_dir = Missing | Present "error + dirent list"

section \<open>The scan: getProjectRules\<close>

text \<open>
  The key of a file (index.ts, lines 129 to 132): \<^verbatim>\<open>README.md\<close> becomes
  \<^verbatim>\<open>OVERVIEW\<close>, any other file its name with the first \<^verbatim>\<open>.md\<close> removed, in upper
  case. \<open>toolName\<close> is the directory's name in upper case (line 117).
\<close>

definition ruleKey :: "string \<Rightarrow> string \<Rightarrow> string" where
  "ruleKey toolName file =
     (if file = ''README.md'' then toolName @ ''-OVERVIEW''
      else toolName @ ''-'' @ toUpperCase (replace file ''.md'' ''''))"

text \<open>
  \<^verbatim>\<open>toolFiles.forEach\<close> (lines 123 to 136). The object \<^verbatim>\<open>rules\<close> is mutated in
  place, so a loop returns the object as it stands together with the exception that ended
  it, if any: an exception of \<^verbatim>\<open>readFileSync\<close> leaves the entries written before it.
\<close>

fun toolFiles_forEach ::
  "string \<Rightarrow> (string \<times> (error + string)) list \<Rightarrow> rules \<Rightarrow> rules \<times> error option" where
  "toolFiles_forEach toolName [] rules = (rules, None)"
| "toolFiles_forEach toolName ((file, outcome) # rest) rules =
     (if endsWith file ''.md'' then
        (case outcome of
           Inl e \<Rightarrow> (rules, Some e)
         | Inr content \<Rightarrow>
             toolFiles_forEach toolName rest (AList.update (ruleKey toolName file) content rules))
      else toolFiles_forEach toolName rest rules)"

text \<open>
  The body of \<^verbatim>\<open>entries.forEach\<close> for one entry (lines 115 to 140): the inner
  \<^verbatim>\<open>try\<close> catches every exception of the directory's listing and of its files' reads
  and only logs it (line 138).
\<close>

definition entry_body :: "dirent \<Rightarrow> rules \<Rightarrow> rules \<times> error option" where
  "entry_body entry rules =
     (if isDirectory entry then
        (let toolName = toUpperCase (name entry) in
         case readdir entry of
           Inl e \<Rightarrow> (rules, None)
         | Inr toolFiles \<Rightarrow>
             (case toolFiles_forEach toolName toolFiles rules of
                (rules', Some e) \<Rightarrow> (rules', None)
              | (rules', None) \<Rightarrow> (rules', None)))
      else (rules, None))"

fun entries_forEach :: "dirent list \<Rightarrow> rules \<Rightarrow> rules \<times> error option" where
  "entries_forEach [] rules = (rules, None)"
| "entries_forEach (entry # rest) rules =
     (case entry_body entry rules of
        (rules', Some e) \<Rightarrow> (rules', Some e)
      | (rules', None) \<Rightarrow> entries_forEach rest rules')"

text \<open>
  \<^verbatim>\<open>getProjectRules\<close> (lines 99 to 147). A missing directory returns the empty
  object (line 108); the outer \<^verbatim>\<open>try\<close> catches what is left and the function returns
  \<^verbatim>\<open>rules\<close> as it stands (line 146).
\<close>

definition getProjectRules :: "rules_dir \<Rightarrow> error + rules" where
  "getProjectRules dir =
     (let rules = [] in
      case dir of
        Missing \<Rightarrow> Inr rules
      | Present (Inl e) \<Rightarrow> Inr rules
      | Present (Inr entries) \<Rightarrow>
          (case entries_forEach entries rules of
             (rules', Some e) \<Rightarrow> Inr rules'
           | (rules', None) \<Rightarrow> Inr rules'))"

section \<open>The cache: getCachedProjectRules and its invalidation\<close>

text \<open>
  The module's variables \<^verbatim>\<open>rulesCache\<close> and \<^verbatim>\<open>lastScanTime\<close> (lines 94 and 95).
  \<open>scanCount\<close> is not a variable of the program: it counts the calls of
  \<^verbatim>\<open>getProjectRules\<close>, so that a rescan can be observed.
\<close>

record cache_state =
  rulesCache :: rules
  lastScanTime :: int
  scanCount :: nat

definition initial_state :: cache_state where
  "initial_state = \<lparr>rulesCache = [], lastScanTime = 0, scanCount = 0\<rparr>"

text \<open>
  \<^verbatim>\<open>getCachedProjectRules\<close> (lines 150 to 166); \<open>now\<close> is \<^verbatim>\<open>Date.now()\<close> and
  \<open>dir\<close> the file system at the time of the call. \<^verbatim>\<open>!rulesCache\<close> is false of every
  object, so the condition is the other two disjuncts. The result is the returned value or
  the exception, and the state after the call; an exception of the scan would leave both
  variables as they were.
\<close>

definition getCachedProjectRules ::
  "rules_dir \<Rightarrow> int \<Rightarrow> cache_state \<Rightarrow> (error + rules) \<times> cache_state" where
  "getCachedProjectRules dir now st =
     (if length (map fst (rulesCache st)) = 0 \<or> now - lastScanTime st > 5000 then
        (case getProjectRules dir of
           Inl e \<Rightarrow> (Inl e, st\<lparr>scanCount := Suc (scanCount st)\<rparr>)
         | Inr rules \<Rightarrow>
             (Inr rules,
              st\<lparr>rulesCache := rules, lastScanTime := now, scanCount := Suc (scanCount st)\<rparr>))
      else (Inr (rulesCache st), st))"

text \<open>
  The file watcher's callback (lines 184 to 194): a change of a \<^verbatim>\<open>.md\<close> file empties
  the cache and resets the scan time. \<open>filename\<close> may be \<^verbatim>\<open>null\<close>.
\<close>

definition invalidate :: "cache_state \<Rightarrow> cache_state" where
  "invalidate st = st\<lparr>rulesCache := [], lastScanTime := 0\<rparr>"

definition watchCallback :: "string \<times> string option \<Rightarrow> cache_state \<Rightarrow> cache_state" where
  "watchCallback ev st =
     (case snd ev of
        None \<Rightarrow> st
      | Some filename \<Rightarrow>
          if filename \<noteq> [] \<and> endsWith filename ''.md'' then invalidate st else st)"

section \<open>The query surface\<close>

text \<open>\<^verbatim>\<open>getAvailableRuleTypes\<close> (lines 219 to 222).\<close>

definition getAvailableRuleTypes ::
  "rules_dir \<Rightarrow> int \<Rightarrow> cache_state \<Rightarrow> (error + string list) \<times> cache_state" where
  "getAvailableRuleTypes dir now st =
     (case getCachedProjectRules dir now st of
        (Inl e, st') \<Rightarrow> (Inl e, st')
      | (Inr rules, st') \<Rightarrow> (Inr (map fst rules @ [''ALL'']), st'))"

text \<open>
  The handler of a tool call (lines 250 to 287). \<open>args\<close> is \<open>None\<close> when the request has
  no argument object with a \<^verbatim>\<open>rule_type\<close>. The result is the \<^verbatim>\<open>text\<close> of the returned
  content, or the exception thrown.
\<close>

definition sectionOf :: "string \<times> string \<Rightarrow> string" where
  "sectionOf entry = ''## '' @ fst entry @ [CHR 0x0A, CHR 0x0A] @ snd entry"

definition delimiter :: string where
  "delimiter = [CHR 0x0A, CHR 0x0A] @ ''---'' @ [CHR 0x0A, CHR 0x0A]"

definition ruleText :: "rules \<Rightarrow> string \<Rightarrow> error + js_value" where
  "ruleText rules ruleType =
     (if ruleType = ''ALL'' then Inr (Str (join (map sectionOf rules) delimiter))
      else if truthy (get_property rules ruleType) then Inr (get_property rules ruleType)
      else Inl (Error (''Unknown rule type: '' @ ruleType)))"

definition callTool ::
  "rules_dir \<Rightarrow> int \<Rightarrow> string \<Rightarrow> string option \<Rightarrow> cache_state \<Rightarrow> (error + js_value) \<times> cache_state" where
  "callTool dir now tool args st =
     (if tool = ''get_project_rules'' then
        (case args of
           None \<Rightarrow> (Inl (Error ''rule_type argument is required''), st)
         | Some ruleType \<Rightarrow>
             (case getCachedProjectRules dir now st of
                (Inl e, st') \<Rightarrow> (Inl e, st')
              | (Inr rules, st') \<Rightarrow> (ruleText rules ruleType, st')))
      else (Inl (Error (''Unknown tool: '' @ tool)), st))"

section \<open>Notions of the specification\<close>

text \<open>The file name without its extension: the last three characters removed.\<close>

definition stem :: "string \<Rightarrow> string" where
  "stem file = take (length file - length ''.md'') file"

text \<open>
  The key derivation in the specification's words, for comparison with \<^const>\<open>ruleKey\<close>:
  the overview name is recognised case-insensitively, and the extension is stripped.
\<close>

definition derive_spec :: "string \<Rightarrow> string \<Rightarrow> string" where
  "derive_spec groupName filename =
     (if toUpperCase (stem filename) = toUpperCase ''README'' then toUpperCase groupName @ ''-OVERVIEW''
      else toUpperCase groupName @ ''-'' @ toUpperCase (stem filename))"

text \<open>\<^verbatim>\<open>.md\<close> occurs in the file name somewhere before its last three characters.\<close>

definition md_before_extension :: "string \<Rightarrow> bool" where
  "md_before_extension file =
     list_ex (\<lambda>i. startsWith (drop i file) ''.md'') [0 ..< length file - length ''.md'']"

text \<open>
  The pattern \<^verbatim>\<open>[A-Z0-9_-]+\<close> of the specification's data model (and of the key checks
  in \<^verbatim>\<open>dynamic-scan.test.ts\<close>): a non-empty string of these characters.
\<close>

definition key_char :: "char \<Rightarrow> bool" where
  "key_char c = (c \<in> set ''ABCDEFGHIJKLMNOPQRSTUVWXYZ0123456789_-'')"

definition valid_key :: "string \<Rightarrow> bool" where
  "valid_key k = (k \<noteq> [] \<and> list_all key_char k)"

text \<open>
  The characters of names that give such keys: ASCII letters, digits, underscore and
  hyphen.
\<close>

definition name_char :: "char \<Rightarrow> bool" where
  "name_char c =
     (c \<in> set ''abcdefghijklmnopqrstuvwxyzABCDEFGHIJKLMNOPQRSTUVWXYZ0123456789_-'')"

text \<open>
  How a reader takes the text of \<^verbatim>\<open>ALL\<close> apart again: \<^verbatim>\<open>s.split(sep)\<close> for a
  non-empty separator cuts at every occurrence of the separator, found from the left.
  Neither function is part of the program; they observe its output.
\<close>

fun split_acc :: "string \<Rightarrow> string \<Rightarrow> string \<Rightarrow> string list" where
  "split_acc [] sep piece = [piece]"
| "split_acc (c # cs) sep piece =
     (if sep \<noteq> [] \<and> startsWith (c # cs) sep
      then piece # split_acc (drop (length sep) (c # cs)) sep []
      else split_acc cs sep (piece @ [c]))"

definition split :: "string \<Rightarrow> string \<Rightarrow> string list" where
  "split s sep = split_acc s sep []"

text \<open>
  The separator begins at some position inside \<open>s\<close> when \<open>s\<close> is followed by the
  separator: \<open>s\<close> contains it, or ends with a part of it that the following separator
  completes.
\<close>

definition starts_inside :: "string \<Rightarrow> string \<Rightarrow> bool" where
  "starts_inside sep s = list_ex (\<lambda>i. startsWith (drop i (s @ sep)) sep) [0 ..< length s]"

text \<open>
  The states of the cache that the program can be in: the initial one, and those after a
  read (from \<^verbatim>\<open>getAvailableRuleTypes\<close> or a tool call), after a change event of the
  watcher, and after the keyboard's restart (lines 321 and 322), which resets the cache as
  an invalidation does.
\<close>

inductive reachable :: "cache_state \<Rightarrow> bool" where
  reachable_initial: "reachable initial_state"
| reachable_read: "reachable st \<Longrightarrow> reachable (snd (getCachedProjectRules dir now st))"
| reachable_change: "reachable st \<Longrightarrow> reachable (watchCallback ev st)"
| reachable_restart: "reachable st \<Longrightarrow> reachable (invalidate st)"

text \<open>
  What every object built by the scan satisfies: its keys are distinct, as the own
  properties of an object are, and each contains the hyphen that \<^const>\<open>ruleKey\<close> puts
  after the group's name.
\<close>

definition scanned :: "rules \<Rightarrow> bool" where
  "scanned rules = (distinct (map fst rules) \<and> list_all (\<lambda>e. CHR ''-'' \<in> set (fst e)) rules)"

section \<open>Facts about the scan\<close>

lemma entry_body_no_throw: "snd (entry_body e r) = None"
  by (simp add: entry_body_def Let_def split: sum.splits prod.splits option.splits)

lemma entries_forEach_fold:
  "entries_forEach es r = (fold (\<lambda>e r. fst (entry_body e r)) es r, None)"
proof (induction es arbitrary: r)
  case Nil
  show ?case by simp
next
  case (Cons e es)
  obtain r' where b: "entry_body e r = (r', None)"
    using entry_body_no_throw [of e r] by (cases "entry_body e r") auto
  show ?case by (simp add: b Cons.IH)
qed

lemma getProjectRules_Present:
  "getProjectRules (Present (Inr es)) = Inr (fold (\<lambda>e r. fst (entry_body e r)) es [])"
  by (simp add: getProjectRules_def entries_forEach_fold)

lemma getProjectRules_total: "\<exists>r. getProjectRules dir = Inr r"
proof (cases dir)
  case Missing
  then show ?thesis by (simp add: getProjectRules_def)
next
  case (Present x)
  then show ?thesis
    by (cases x) (simp_all add: getProjectRules_def split: prod.splits option.splits)
qed

lemma toolFiles_forEach_failed_read:
  "endsWith f ''.md'' \<Longrightarrow>
   fst (toolFiles_forEach t (fs1 @ (f, Inl err) # fs2) r) = fst (toolFiles_forEach t fs1 r)"
proof (induction fs1 arbitrary: r)
  case Nil
  then show ?case by simp
next
  case (Cons a fs1)
  obtain g c where a: "a = (g, c)" by (cases a)
  show ?case using Cons by (cases c) (simp_all add: a)
qed

lemma replace_suffix_only:
  "p \<noteq> [] \<Longrightarrow> \<not> (\<exists>i < length s. startsWith (drop i (s @ p)) p) \<Longrightarrow>
   replace (s @ p) p r = s @ r"
proof (induction s)
  case Nil
  then show ?case by (cases p) (simp_all add: startsWith_def)
next
  case (Cons c cs)
  have first: "\<not> startsWith ((c # cs) @ p) p"
    using Cons.prems(2) by (auto dest: spec [of _ 0])
  have later: "\<not> (\<exists>i < length cs. startsWith (drop i (cs @ p)) p)"
  proof
    assume "\<exists>i < length cs. startsWith (drop i (cs @ p)) p"
    then obtain i where "i < length cs" "startsWith (drop i (cs @ p)) p" by blast
    then have "Suc i < length (c # cs) \<and> startsWith (drop (Suc i) ((c # cs) @ p)) p" by simp
    with Cons.prems(2) show False by blast
  qed
  show ?case using first Cons.IH [OF Cons.prems(1) later] by simp
qed

lemma toolFiles_forEach_keys:
  "k \<in> fst ` set (fst (toolFiles_forEach t fs r)) \<Longrightarrow>
   k \<in> fst ` set r \<or> (\<exists>f \<in> set fs. endsWith (fst f) ''.md'' \<and> k = ruleKey t (fst f))"
proof (induction fs arbitrary: r)
  case Nil
  then show ?case by simp
next
  case (Cons a fs)
  obtain g c where a: "a = (g, c)" by (cases a)
  show ?case
  proof (cases "endsWith g ''.md''")
    case False
    with Cons a show ?thesis by auto
  next
    case md: True
    show ?thesis
    proof (cases c)
      case (Inl e)
      with Cons.prems a md show ?thesis by simp
    next
      case (Inr body)
      with Cons.prems a md
      have "k \<in> fst ` set (fst (toolFiles_forEach t fs (AList.update (ruleKey t g) body r)))"
        by simp
      from Cons.IH [OF this]
      show ?thesis using a md by (auto simp: dom_update)
    qed
  qed
qed

lemma toolFiles_forEach_distinct:
  "distinct (map fst r) \<Longrightarrow> distinct (map fst (fst (toolFiles_forEach t fs r)))"
proof (induction fs arbitrary: r)
  case Nil
  then show ?case by simp
next
  case (Cons a fs)
  obtain g c where a: "a = (g, c)" by (cases a)
  show ?case using Cons by (cases c) (simp_all add: a distinct_update)
qed

lemma entry_body_fst:
  "fst (entry_body e r) =
     (if isDirectory e then
        (case readdir e of Inl err \<Rightarrow> r
         | Inr fs \<Rightarrow> fst (toolFiles_forEach (toUpperCase (name e)) fs r))
      else r)"
  by (simp add: entry_body_def split: sum.splits prod.splits option.splits)

lemma entry_body_keys:
  assumes that: "k \<in> fst ` set (fst (entry_body e r))"
  shows "k \<in> fst ` set r \<or>
   (isDirectory e \<and> (\<exists>fs. readdir e = Inr fs \<and>
      (\<exists>f \<in> set fs. endsWith (fst f) ''.md'' \<and> k = ruleKey (toUpperCase (name e)) (fst f))))"
proof (cases "isDirectory e")
  case False
  with that show ?thesis by (simp add: entry_body_fst)
next
  case dir: True
  show ?thesis
  proof (cases "readdir e")
    case (Inl err)
    with that dir show ?thesis by (simp add: entry_body_fst)
  next
    case (Inr fs)
    with that dir have "k \<in> fst ` set (fst (toolFiles_forEach (toUpperCase (name e)) fs r))"
      by (simp add: entry_body_fst)
    from toolFiles_forEach_keys [OF this] show ?thesis using dir Inr by simp
  qed
qed

lemma entry_body_distinct:
  "distinct (map fst r) \<Longrightarrow> distinct (map fst (fst (entry_body e r)))"
  by (simp add: entry_body_fst toolFiles_forEach_distinct split: sum.splits)

lemma fold_entry_body_keys:
  "k \<in> fst ` set (fold (\<lambda>e r. fst (entry_body e r)) es r) \<Longrightarrow>
   k \<in> fst ` set r \<or>
   (\<exists>e \<in> set es. isDirectory e \<and> (\<exists>fs. readdir e = Inr fs \<and>
      (\<exists>f \<in> set fs. endsWith (fst f) ''.md'' \<and> k = ruleKey (toUpperCase (name e)) (fst f))))"
proof (induction es arbitrary: r)
  case Nil
  then show ?case by simp
next
  case (Cons e es)
  from Cons.prems have "k \<in> fst ` set (fold (\<lambda>e r. fst (entry_body e r)) es (fst (entry_body e r)))"
    by simp
  from Cons.IH [OF this] show ?case
    using entry_body_keys [of k e r] by auto
qed

lemma fold_entry_body_distinct:
  "distinct (map fst r) \<Longrightarrow> distinct (map fst (fold (\<lambda>e r. fst (entry_body e r)) es r))"
  by (induction es arbitrary: r) (simp_all add: entry_body_distinct)

lemma getProjectRules_keys:
  assumes "getProjectRules dir = Inr rules" and "k \<in> fst ` set rules"
  shows "\<exists>es. dir = Present (Inr es) \<and>
           (\<exists>e \<in> set es. isDirectory e \<and> (\<exists>fs. readdir e = Inr fs \<and>
              (\<exists>f \<in> set fs. endsWith (fst f) ''.md'' \<and>
                 k = ruleKey (toUpperCase (name e)) (fst f))))"
proof (cases dir)
  case Missing
  with assms show ?thesis by (simp add: getProjectRules_def)
next
  case (Present x)
  show ?thesis
  proof (cases x)
    case (Inl e)
    with Present assms show ?thesis by (simp add: getProjectRules_def)
  next
    case (Inr es)
    with Present assms have "k \<in> fst ` set (fold (\<lambda>e r. fst (entry_body e r)) es [])"
      by (simp add: getProjectRules_Present)
    from fold_entry_body_keys [OF this] show ?thesis
      using Present Inr by simp
  qed
qed

lemma getProjectRules_distinct:
  assumes "getProjectRules dir = Inr rules"
  shows "distinct (map fst rules)"
proof (cases dir)
  case Missing
  with assms show ?thesis by (auto simp: getProjectRules_def)
next
  case (Present x)
  show ?thesis
  proof (cases x)
    case (Inl e)
    with Present assms show ?thesis by (auto simp: getProjectRules_def)
  next
    case (Inr es)
    with Present assms show ?thesis
      using fold_entry_body_distinct [of "[]" es] by (auto simp: getProjectRules_Present)
  qed
qed

lemma ruleKey_hyphen: "CHR ''-'' \<in> set (ruleKey t f)"
  by (simp add: ruleKey_def)

lemma getProjectRules_scanned:
  assumes "getProjectRules dir = Inr rules"
  shows "scanned rules"
proof -
  have "CHR ''-'' \<in> set k" if "k \<in> fst ` set rules" for k
    using getProjectRules_keys [OF assms that] ruleKey_hyphen by auto
  then show ?thesis
    using getProjectRules_distinct [OF assms] by (auto simp: scanned_def list_all_iff)
qed

section \<open>Key derivation\<close>

lemma endsWith_stem: "endsWith file ''.md'' \<Longrightarrow> file = stem file @ ''.md''"
  by (metis append_take_drop_id endsWith_def stem_def)

lemma replace_md_stem:
  assumes "endsWith file ''.md''" and "\<not> md_before_extension file"
  shows "replace file ''.md'' '''' = stem file"
proof -
  have f: "file = stem file @ ''.md''" using assms(1) by (rule endsWith_stem)
  have len: "length (stem file) = length file - length ''.md''"
    by (simp add: stem_def)
  have "\<not> (\<exists>i < length (stem file). startsWith (drop i (stem file @ ''.md'')) ''.md'')"
    using assms(2) f len by (auto simp: md_before_extension_def list_ex_iff)
  then have "replace (stem file @ ''.md'') ''.md'' '''' = stem file @ ''''"
    by (intro replace_suffix_only) simp_all
  with f show ?thesis by simp
qed

text \<open>
  C2, as the code has it. For a file name ending in \<^verbatim>\<open>.md\<close> in which \<^verbatim>\<open>.md\<close> occurs
  nowhere else, the key is the group's name in upper case followed by \<^verbatim>\<open>-OVERVIEW\<close>
  when the file name is exactly \<^verbatim>\<open>README.md\<close>, and by a hyphen and the upper-cased
  name without its extension otherwise.
\<close>

theorem ruleKey_derivation:
  assumes "endsWith file ''.md''" and "\<not> md_before_extension file"
  shows "ruleKey (toUpperCase groupName) file =
           (if file = ''README.md'' then toUpperCase groupName @ ''-OVERVIEW''
            else toUpperCase groupName @ ''-'' @ toUpperCase (stem file))"
  using replace_md_stem [OF assms] by (simp add: ruleKey_def)

theorem ruleKey_derivation_witness:
  "ruleKey (toUpperCase ''general'') ''README.md'' = ''GENERAL-OVERVIEW'' \<and>
   ruleKey (toUpperCase ''general'') ''commit-messages.md'' = ''GENERAL-COMMIT-MESSAGES''"
proof -
  have e1: "endsWith ''README.md'' ''.md''" by (simp add: endsWith_def)
  have n1: "\<not> md_before_extension ''README.md''"
    by (simp add: md_before_extension_def startsWith_def upt_rec)
  have e2: "endsWith ''commit-messages.md'' ''.md''" by (simp add: endsWith_def)
  have n2: "\<not> md_before_extension ''commit-messages.md''"
    by (simp add: md_before_extension_def startsWith_def upt_rec)
  show ?thesis
    using ruleKey_derivation [OF e1 n1, of "''general''"]
      ruleKey_derivation [OF e2 n2, of "''general''"]
    by (simp add: toUpperCase_def upper_char_def stem_def)
qed

text \<open>
  C2 as stated fails on a lower-case overview name: the comparison with \<^verbatim>\<open>README.md\<close>
  is exact, so \<^verbatim>\<open>readme.md\<close> in group \<^verbatim>\<open>general\<close> gets the key
  \<^verbatim>\<open>GENERAL-README\<close>, where the specification's derivation gives
  \<^verbatim>\<open>GENERAL-OVERVIEW\<close>.
\<close>

theorem lowercase_readme_counterexample:
  "endsWith ''readme.md'' ''.md'' \<and>
   ruleKey (toUpperCase ''general'') ''readme.md'' = ''GENERAL-README'' \<and>
   derive_spec ''general'' ''readme.md'' = ''GENERAL-OVERVIEW''"
  by (simp add: endsWith_def ruleKey_def derive_spec_def stem_def toUpperCase_def upper_char_def
      startsWith_def)

lemma upper_char_key: "name_char c \<Longrightarrow> key_char (upper_char c)"
  unfolding name_char_def key_char_def upper_char_def by auto

lemma toUpperCase_key: "list_all name_char s \<Longrightarrow> list_all key_char (toUpperCase s)"
  by (induction s) (simp_all add: toUpperCase_def upper_char_key)

lemma name_chars_no_md:
  assumes "list_all name_char (stem file)"
  shows "\<not> md_before_extension file"
proof
  assume "md_before_extension file"
  then obtain i where i: "i < length file - length ''.md''" and s: "startsWith (drop i file) ''.md''"
    by (auto simp: md_before_extension_def list_ex_iff)
  from i have il: "i < length file" by simp
  from s have "hd (drop i file) = CHR ''.''"
    by (cases "drop i file") (auto simp: startsWith_def)
  with il have "file ! i = CHR ''.''" by (simp add: hd_drop_conv_nth)
  moreover from i have "stem file ! i = file ! i" by (simp add: stem_def)
  moreover from i have "i < length (stem file)" by (simp add: stem_def)
  then have "stem file ! i \<in> set (stem file)" by (rule nth_mem)
  ultimately have "name_char (CHR ''.'')"
    using assms by (auto simp: list_all_iff)
  then show False by (simp add: name_char_def)
qed

text \<open>
  A key made from a group name and a file stem of letters, digits, underscores and hyphens
  matches the pattern.
\<close>

lemma ruleKey_valid:
  assumes "list_all name_char g" and "endsWith f ''.md''" and "list_all name_char (stem f)"
  shows "valid_key (ruleKey (toUpperCase g) f)"
proof -
  have r: "replace f ''.md'' '''' = stem f"
    using assms(2) name_chars_no_md [OF assms(3)] by (rule replace_md_stem)
  have "list_all key_char (toUpperCase g)" "list_all key_char (toUpperCase (stem f))"
    using assms by (simp_all add: toUpperCase_key)
  then show ?thesis
    by (simp add: valid_key_def ruleKey_def r key_char_def)
qed

text \<open>
  Every key of a scanned object is non-empty and is made by \<^const>\<open>ruleKey\<close> from a
  listed group and one of its \<^verbatim>\<open>.md\<close> files; it matches the pattern when that
  group's name and that file's stem are made of such characters, whatever the other
  names in the rules directory are.
\<close>

lemma scanned_key_from_names:
  assumes "getProjectRules dir = Inr rules" and "k \<in> fst ` set rules"
  shows "k \<noteq> [] \<and>
         (\<exists>es. dir = Present (Inr es) \<and>
            (\<exists>e \<in> set es. isDirectory e \<and> (\<exists>fs. readdir e = Inr fs \<and>
               (\<exists>f \<in> set fs. endsWith (fst f) ''.md'' \<and>
                  k = ruleKey (toUpperCase (name e)) (fst f) \<and>
                  (list_all name_char (name e) \<and> list_all name_char (stem (fst f)) \<longrightarrow>
                     valid_key k)))))"
proof -
  from getProjectRules_keys [OF assms] obtain es e fs f where
    d: "dir = Present (Inr es)" and e: "e \<in> set es" "isDirectory e" "readdir e = Inr fs" and
    f: "f \<in> set fs" "endsWith (fst f) ''.md''" and k: "k = ruleKey (toUpperCase (name e)) (fst f)"
    by blast
  have ne: "k \<noteq> []" using ruleKey_hyphen [of "toUpperCase (name e)" "fst f"] k by auto
  have "list_all name_char (name e) \<and> list_all name_char (stem (fst f)) \<longrightarrow> valid_key k"
    unfolding k using f(2) by (auto intro: ruleKey_valid)
  with ne d e f k show ?thesis by blast
qed

text \<open>
  C4 fails on the code for a file name with a dot in its stem: the scan accepts
  \<^verbatim>\<open>docs/changelog.v2.md\<close> and gives it the key \<^verbatim>\<open>DOCS-CHANGELOG.V2\<close>, which is
  outside the pattern \<^verbatim>\<open>[A-Z0-9_-]+\<close> that \<^verbatim>\<open>dynamic-scan.test.ts\<close> asserts of
  every key. The scan filters no name and replaces no character.
\<close>

theorem dotted_name_key_outside_pattern:
  "getProjectRules
      (Present (Inr [Dirent ''docs'' True (Inr [(''changelog.v2.md'', Inr ''# Changes'')])])) =
     Inr [(''DOCS-CHANGELOG.V2'', ''# Changes'')] \<and>
   \<not> valid_key ''DOCS-CHANGELOG.V2''"
  by (simp add: getProjectRules_def entry_body_def ruleKey_def toUpperCase_def upper_char_def
      endsWith_def startsWith_def valid_key_def key_char_def)

section \<open>Failures inside one group\<close>

lemma entry_body_unlistable:
  "isDirectory e \<Longrightarrow> readdir e = Inl err \<Longrightarrow> fst (entry_body e r) = r"
  by (simp add: entry_body_fst)

lemma entry_body_unreadable:
  assumes "isDirectory e" and "readdir e = Inr (fs1 @ (f, Inl err) # fs2)" and "endsWith f ''.md''"
  shows "fst (entry_body e r) = fst (entry_body (Dirent (name e) True (Inr fs1)) r)"
  using assms by (simp add: entry_body_fst toolFiles_forEach_failed_read)

text \<open>
  C5, as the code has it. When the listing of a group's directory fails, the scan's result
  is that of the same rules directory without the group. When the read of one of its
  \<^verbatim>\<open>.md\<close> files fails, the result is that of the rules directory in which the group
  holds only the files listed before the failing one: the entries written before the
  exception stay, the files after it are not read. In both cases the other groups are
  scanned as before and the scan returns.
\<close>

theorem group_failure_contained:
  assumes "isDirectory e"
  shows "(readdir e = Inl err \<longrightarrow>
            getProjectRules (Present (Inr (es1 @ e # es2))) =
            getProjectRules (Present (Inr (es1 @ es2)))) \<and>
         (readdir e = Inr (fs1 @ (f, Inl err) # fs2) \<and> endsWith f ''.md'' \<longrightarrow>
            getProjectRules (Present (Inr (es1 @ e # es2))) =
            getProjectRules (Present (Inr (es1 @ Dirent (name e) True (Inr fs1) # es2)))) \<and>
         (\<exists>rules. getProjectRules (Present (Inr (es1 @ e # es2))) = Inr rules)"
proof (intro conjI impI)
  assume "readdir e = Inl err"
  then show "getProjectRules (Present (Inr (es1 @ e # es2))) =
             getProjectRules (Present (Inr (es1 @ es2)))"
    using assms by (simp add: getProjectRules_Present entry_body_unlistable)
next
  assume "readdir e = Inr (fs1 @ (f, Inl err) # fs2) \<and> endsWith f ''.md''"
  then show "getProjectRules (Present (Inr (es1 @ e # es2))) =
             getProjectRules (Present (Inr (es1 @ Dirent (name e) True (Inr fs1) # es2)))"
    using assms entry_body_unreadable [of e fs1 f err fs2]
    by (simp add: getProjectRules_Present)
next
  show "\<exists>rules. getProjectRules (Present (Inr (es1 @ e # es2))) = Inr rules"
    by (rule getProjectRules_total)
qed

theorem group_failure_contained_witness:
  "getProjectRules (Present (Inr
      ([Dirent ''a'' True (Inr [(''X.md'', Inr ''x'')])] @
       Dirent ''locked'' True (Inl FsError) #
       [Dirent ''b'' True (Inr [(''Y.md'', Inr ''y'')])]))) =
     Inr [(''A-X'', ''x''), (''B-Y'', ''y'')] \<and>
   getProjectRules (Present (Inr
      ([] @ Dirent ''g'' True (Inr ([(''A.md'', Inr ''x'')] @ (''B.md'', Inl FsError) # [(''C.md'', Inr ''z'')])) #
       [Dirent ''b'' True (Inr [(''Y.md'', Inr ''y'')])]))) =
     Inr [(''G-A'', ''x''), (''B-Y'', ''y'')]"
proof -
  have d: "isDirectory (Dirent ''locked'' True (Inl FsError))" by simp
  have r: "readdir (Dirent ''locked'' True (Inl FsError)) = Inl FsError" by simp
  have d2: "isDirectory (Dirent ''g'' True
      (Inr ([(''A.md'', Inr ''x'')] @ (''B.md'', Inl FsError) # [(''C.md'', Inr ''z'')])))"
    by simp
  have r2: "readdir (Dirent ''g'' True
      (Inr ([(''A.md'', Inr ''x'')] @ (''B.md'', Inl FsError) # [(''C.md'', Inr ''z'')]))) =
      Inr ([(''A.md'', Inr ''x'')] @ (''B.md'', Inl FsError) # [(''C.md'', Inr ''z'')]) \<and>
      endsWith ''B.md'' ''.md''"
    by (simp add: endsWith_def)
  have v1: "getProjectRules (Present (Inr
      ([Dirent ''a'' True (Inr [(''X.md'', Inr ''x'')])] @
       [Dirent ''b'' True (Inr [(''Y.md'', Inr ''y'')])]))) =
     Inr [(''A-X'', ''x''), (''B-Y'', ''y'')]"
    by (simp add: getProjectRules_def entry_body_def ruleKey_def toUpperCase_def upper_char_def
        endsWith_def startsWith_def)
  have v2: "getProjectRules (Present (Inr
      ([] @ Dirent (name (Dirent ''g'' True
         (Inr ([(''A.md'', Inr ''x'')] @ (''B.md'', Inl FsError) # [(''C.md'', Inr ''z'')]))))
         True (Inr [(''A.md'', Inr ''x'')]) #
       [Dirent ''b'' True (Inr [(''Y.md'', Inr ''y'')])]))) =
     Inr [(''G-A'', ''x''), (''B-Y'', ''y'')]"
    by (simp add: getProjectRules_def entry_body_def ruleKey_def toUpperCase_def upper_char_def
        endsWith_def startsWith_def)
  from group_failure_contained [OF d, where err = FsError and
      ?es1.0 = "[Dirent ''a'' True (Inr [(''X.md'', Inr ''x'')])]" and
      ?es2.0 = "[Dirent ''b'' True (Inr [(''Y.md'', Inr ''y'')])]"] r
  have a: "getProjectRules (Present (Inr
      ([Dirent ''a'' True (Inr [(''X.md'', Inr ''x'')])] @
       Dirent ''locked'' True (Inl FsError) #
       [Dirent ''b'' True (Inr [(''Y.md'', Inr ''y'')])]))) =
     getProjectRules (Present (Inr
      ([Dirent ''a'' True (Inr [(''X.md'', Inr ''x'')])] @
       [Dirent ''b'' True (Inr [(''Y.md'', Inr ''y'')])])))"
    by blast
  from group_failure_contained [OF d2, where err = FsError and ?es1.0 = "[]" and
      ?es2.0 = "[Dirent ''b'' True (Inr [(''Y.md'', Inr ''y'')])]" and
      ?fs1.0 = "[(''A.md'', Inr ''x'')]" and f = "''B.md''" and ?fs2.0 = "[(''C.md'', Inr ''z'')]"] r2
  have b: "getProjectRules (Present (Inr
      ([] @ Dirent ''g'' True (Inr ([(''A.md'', Inr ''x'')] @ (''B.md'', Inl FsError) # [(''C.md'', Inr ''z'')])) #
       [Dirent ''b'' True (Inr [(''Y.md'', Inr ''y'')])]))) =
     getProjectRules (Present (Inr
      ([] @ Dirent (name (Dirent ''g'' True
         (Inr ([(''A.md'', Inr ''x'')] @ (''B.md'', Inl FsError) # [(''C.md'', Inr ''z'')]))))
         True (Inr [(''A.md'', Inr ''x'')]) #
       [Dirent ''b'' True (Inr [(''Y.md'', Inr ''y'')])])))"
    by blast
  show ?thesis using a b v1 v2 by (simp only:)
qed

text \<open>
  C5 as stated fails when a read fails after another has succeeded: of the group
  \<^verbatim>\<open>g\<close> with the readable \<^verbatim>\<open>A.md\<close> and the unreadable \<^verbatim>\<open>B.md\<close>, the entry
  \<^verbatim>\<open>G-A\<close> is in the result, where a group with no contribution would leave the
  result of the empty rules directory.
\<close>

theorem partial_group_counterexample:
  "getProjectRules (Present (Inr
      [Dirent ''g'' True (Inr [(''A.md'', Inr ''x''), (''B.md'', Inl FsError)])])) =
     Inr [(''G-A'', ''x'')] \<and>
   getProjectRules (Present (Inr [])) = Inr []"
  by (simp add: getProjectRules_def entry_body_def ruleKey_def toUpperCase_def upper_char_def
      endsWith_def startsWith_def)

section \<open>The cache\<close>

text \<open>
  C1, as the code has it. A read whose scan finds the rules directory missing returns the
  empty object and installs it, whatever was held before: the scan runs when the held
  object has no key or is older than 5000 ms, \<^verbatim>\<open>getProjectRules\<close> returns \<^verbatim>\<open>{}\<close>
  for a missing directory, and the result is assigned to \<^verbatim>\<open>rulesCache\<close>. The held
  object is returned unchanged only when no scan runs. In both cases the call returns a
  value and throws nothing.
\<close>

theorem missing_root_read:
  "getCachedProjectRules Missing now st =
     (if rulesCache st = [] \<or> now - lastScanTime st > 5000
      then (Inr [], st\<lparr>rulesCache := [], lastScanTime := now, scanCount := Suc (scanCount st)\<rparr>)
      else (Inr (rulesCache st), st))"
  by (simp add: getCachedProjectRules_def getProjectRules_def)

theorem missing_root_read_witness:
  "getCachedProjectRules Missing 6000
      \<lparr>rulesCache = [(''G-A'', ''x'')], lastScanTime = 0, scanCount = 1\<rparr> =
     (Inr [], \<lparr>rulesCache = [], lastScanTime = 6000, scanCount = 2\<rparr>)"
  using missing_root_read
    [of 6000 "\<lparr>rulesCache = [(''G-A'', ''x'')], lastScanTime = 0, scanCount = 1\<rparr>"]
  by simp

text \<open>
  C1 as stated fails: a first read at time 0 scans \<^verbatim>\<open>g/A.md\<close> and holds one entry;
  the directory then disappears, and the read at time 6000 rescans and returns the empty
  object, not the entry held.
\<close>

theorem missing_root_drops_snapshot_counterexample:
  "fst (getCachedProjectRules (Present (Inr [Dirent ''g'' True (Inr [(''A.md'', Inr ''x'')])])) 0
          initial_state) = Inr [(''G-A'', ''x'')] \<and>
   fst (getCachedProjectRules Missing 6000
          (snd (getCachedProjectRules
                  (Present (Inr [Dirent ''g'' True (Inr [(''A.md'', Inr ''x'')])])) 0
                  initial_state))) = Inr []"
  by (simp add: getCachedProjectRules_def getProjectRules_def initial_state_def entry_body_def
      ruleKey_def toUpperCase_def upper_char_def endsWith_def startsWith_def)

text \<open>
  C3, as the code has it. A read calls the scan exactly when the held object has no key
  (before the first scan, after an invalidation, and after a scan that found nothing) or
  \<open>now - lastScanTime > 5000\<close>: it then returns what the scan of the rules directory
  returns, installs it and sets the scan time to \<open>now\<close>. Otherwise it returns the held
  object and changes nothing.
\<close>

theorem rescan_condition:
  "\<exists>rules. getProjectRules dir = Inr rules \<and>
     getCachedProjectRules dir now st =
       (if rulesCache st = [] \<or> now - lastScanTime st > 5000
        then (Inr rules,
              st\<lparr>rulesCache := rules, lastScanTime := now, scanCount := Suc (scanCount st)\<rparr>)
        else (Inr (rulesCache st), st))"
proof -
  obtain r where r: "getProjectRules dir = Inr r"
    using getProjectRules_total by blast
  show ?thesis by (simp add: getCachedProjectRules_def r)
qed

theorem rescan_condition_witness:
  "getCachedProjectRules
      (Present (Inr [Dirent ''general'' True (Inr [(''README.md'', Inr ''new'')])])) 7000
      \<lparr>rulesCache = [(''GENERAL-OVERVIEW'', ''old'')], lastScanTime = 1000, scanCount = 1\<rparr> =
     (Inr [(''GENERAL-OVERVIEW'', ''new'')],
      \<lparr>rulesCache = [(''GENERAL-OVERVIEW'', ''new'')], lastScanTime = 7000, scanCount = 2\<rparr>) \<and>
   getCachedProjectRules
      (Present (Inr [Dirent ''general'' True (Inr [(''README.md'', Inr ''new'')])])) 6000
      \<lparr>rulesCache = [(''GENERAL-OVERVIEW'', ''old'')], lastScanTime = 1000, scanCount = 1\<rparr> =
     (Inr [(''GENERAL-OVERVIEW'', ''old'')],
      \<lparr>rulesCache = [(''GENERAL-OVERVIEW'', ''old'')], lastScanTime = 1000, scanCount = 1\<rparr>)"
proof -
  have g: "getProjectRules
      (Present (Inr [Dirent ''general'' True (Inr [(''README.md'', Inr ''new'')])])) =
     Inr [(''GENERAL-OVERVIEW'', ''new'')]"
    by (simp add: getProjectRules_def entry_body_def ruleKey_def toUpperCase_def upper_char_def
        endsWith_def)
  show ?thesis
    using
      rescan_condition
        [of "Present (Inr [Dirent ''general'' True (Inr [(''README.md'', Inr ''new'')])])" 7000
          "\<lparr>rulesCache = [(''GENERAL-OVERVIEW'', ''old'')], lastScanTime = 1000, scanCount = 1\<rparr>"]
      rescan_condition
        [of "Present (Inr [Dirent ''general'' True (Inr [(''README.md'', Inr ''new'')])])" 6000
          "\<lparr>rulesCache = [(''GENERAL-OVERVIEW'', ''old'')], lastScanTime = 1000, scanCount = 1\<rparr>"]
    by (simp add: g)
qed

text \<open>
  C3 as stated fails on a fresh snapshot with no entry: the read at time 1000 scans an
  empty rules directory and installs the empty object; the read one millisecond later,
  with no invalidation in between, scans again.
\<close>

theorem empty_snapshot_rescanned_counterexample:
  "getCachedProjectRules (Present (Inr [])) 1000 initial_state =
     (Inr [], \<lparr>rulesCache = [], lastScanTime = 1000, scanCount = 1\<rparr>) \<and>
   getCachedProjectRules (Present (Inr [])) 1001
       \<lparr>rulesCache = [], lastScanTime = 1000, scanCount = 1\<rparr> =
     (Inr [], \<lparr>rulesCache = [], lastScanTime = 1001, scanCount = 2\<rparr>)"
  by (simp add: getCachedProjectRules_def getProjectRules_def initial_state_def)

lemma invalidate_idem: "invalidate (invalidate st) = invalidate st"
  by (simp add: invalidate_def)

lemma watchCallback_md:
  "snd ev = Some f \<Longrightarrow> endsWith f ''.md'' \<Longrightarrow> watchCallback ev st = invalidate st"
  by (auto simp: watchCallback_def endsWith_def)

lemma fold_watchCallback_invalidated:
  "\<forall>ev\<in>set evs. \<exists>f. snd ev = Some f \<and> endsWith f ''.md'' \<Longrightarrow>
   fold watchCallback evs (invalidate st) = invalidate st"
proof (induction evs)
  case Nil
  show ?case by simp
next
  case (Cons ev evs)
  then obtain f where "snd ev = Some f" "endsWith f ''.md''" by auto
  then have "watchCallback ev (invalidate st) = invalidate st"
    by (simp add: watchCallback_md invalidate_idem)
  with Cons show ?case by simp
qed

lemma scan_after_invalidate:
  "getProjectRules dir = Inr rules \<Longrightarrow>
   getCachedProjectRules dir now (invalidate st) =
     (Inr rules, st\<lparr>rulesCache := rules, lastScanTime := now, scanCount := Suc (scanCount st)\<rparr>)"
  by (simp add: getCachedProjectRules_def invalidate_def)

text \<open>
  C6. Any number \<open>n \<ge> 1\<close> of change events for \<^verbatim>\<open>.md\<close> files (the list \<open>evs\<close>, of
  length \<open>n\<close>) leaves the same state as the first of them alone, and the next read scans
  once: it returns what the scan of the rules directory returns, installs it, and the
  count of scans goes up by one.
\<close>

theorem invalidations_collapse:
  assumes "evs \<noteq> []" and "\<forall>ev\<in>set evs. \<exists>f. snd ev = Some f \<and> endsWith f ''.md''"
  shows "fold watchCallback evs st = watchCallback (hd evs) st \<and>
         (\<exists>rules. getProjectRules dir = Inr rules \<and>
            getCachedProjectRules dir now (fold watchCallback evs st) =
              (Inr rules,
               st\<lparr>rulesCache := rules, lastScanTime := now, scanCount := Suc (scanCount st)\<rparr>))"
proof -
  obtain ev rest where evs: "evs = ev # rest" using assms(1) by (cases evs) auto
  obtain f where f: "snd ev = Some f" "endsWith f ''.md''" using assms(2) evs by auto
  have one: "watchCallback ev st = invalidate st" using f by (rule watchCallback_md)
  have all: "fold watchCallback evs st = invalidate st"
    using fold_watchCallback_invalidated [of rest st] assms(2) by (simp add: evs one)
  obtain r where r: "getProjectRules dir = Inr r"
    using getProjectRules_total by blast
  have first: "watchCallback (hd evs) st = invalidate st" by (simp add: evs one)
  show ?thesis
    unfolding all first using scan_after_invalidate [OF r, of now st] r by blast
qed

theorem invalidations_collapse_witness:
  "fold watchCallback
     [(''change'', Some ''general/README.md''), (''rename'', Some ''general/NEW.md''),
      (''change'', Some ''general/README.md'')]
     \<lparr>rulesCache = [(''GENERAL-OVERVIEW'', ''old'')], lastScanTime = 5, scanCount = 1\<rparr> =
   \<lparr>rulesCache = [], lastScanTime = 0, scanCount = 1\<rparr> \<and>
   getCachedProjectRules
     (Present (Inr [Dirent ''general'' True (Inr [(''README.md'', Inr ''new'')])])) 10
     (fold watchCallback
        [(''change'', Some ''general/README.md''), (''rename'', Some ''general/NEW.md''),
         (''change'', Some ''general/README.md'')]
        \<lparr>rulesCache = [(''GENERAL-OVERVIEW'', ''old'')], lastScanTime = 5, scanCount = 1\<rparr>) =
   (Inr [(''GENERAL-OVERVIEW'', ''new'')],
    \<lparr>rulesCache = [(''GENERAL-OVERVIEW'', ''new'')], lastScanTime = 10, scanCount = 2\<rparr>)"
proof -
  have ne: "[(''change'', Some ''general/README.md''), (''rename'', Some ''general/NEW.md''),
         (''change'', Some ''general/README.md'')] \<noteq> []"
    by simp
  have h: "\<forall>ev\<in>set [(''change'', Some ''general/README.md''), (''rename'', Some ''general/NEW.md''),
         (''change'', Some ''general/README.md'')]. \<exists>f. snd ev = Some f \<and> endsWith f ''.md''"
    by (simp add: endsWith_def)
  have g: "getProjectRules
      (Present (Inr [Dirent ''general'' True (Inr [(''README.md'', Inr ''new'')])])) =
     Inr [(''GENERAL-OVERVIEW'', ''new'')]"
    by (simp add: getProjectRules_def entry_body_def ruleKey_def toUpperCase_def upper_char_def
        endsWith_def)
  have c: "watchCallback
             (hd [(''change'', Some ''general/README.md''), (''rename'', Some ''general/NEW.md''),
                  (''change'', Some ''general/README.md'')])
             \<lparr>rulesCache = [(''GENERAL-OVERVIEW'', ''old'')], lastScanTime = 5, scanCount = 1\<rparr> =
           \<lparr>rulesCache = [], lastScanTime = 0, scanCount = 1\<rparr>"
    by (simp add: watchCallback_def invalidate_def endsWith_def)
  from invalidations_collapse [OF ne h,
      where dir = "Present (Inr [Dirent ''general'' True (Inr [(''README.md'', Inr ''new'')])])"
        and now = 10
        and st = "\<lparr>rulesCache = [(''GENERAL-OVERVIEW'', ''old'')], lastScanTime = 5, scanCount = 1\<rparr>"]
  obtain rules where
    a: "fold watchCallback
          [(''change'', Some ''general/README.md''), (''rename'', Some ''general/NEW.md''),
           (''change'', Some ''general/README.md'')]
          \<lparr>rulesCache = [(''GENERAL-OVERVIEW'', ''old'')], lastScanTime = 5, scanCount = 1\<rparr> =
        watchCallback
          (hd [(''change'', Some ''general/README.md''), (''rename'', Some ''general/NEW.md''),
               (''change'', Some ''general/README.md'')])
          \<lparr>rulesCache = [(''GENERAL-OVERVIEW'', ''old'')], lastScanTime = 5, scanCount = 1\<rparr>" and
    r: "getProjectRules
          (Present (Inr [Dirent ''general'' True (Inr [(''README.md'', Inr ''new'')])])) = Inr rules" and
    b: "getCachedProjectRules
          (Present (Inr [Dirent ''general'' True (Inr [(''README.md'', Inr ''new'')])])) 10
          (fold watchCallback
            [(''change'', Some ''general/README.md''), (''rename'', Some ''general/NEW.md''),
             (''change'', Some ''general/README.md'')]
            \<lparr>rulesCache = [(''GENERAL-OVERVIEW'', ''old'')], lastScanTime = 5, scanCount = 1\<rparr>) =
        (Inr rules,
         \<lparr>rulesCache = [(''GENERAL-OVERVIEW'', ''old'')], lastScanTime = 5, scanCount = 1\<rparr>
           \<lparr>rulesCache := rules, lastScanTime := 10, scanCount := Suc (scanCount
             \<lparr>rulesCache = [(''GENERAL-OVERVIEW'', ''old'')], lastScanTime = 5, scanCount = 1\<rparr>)\<rparr>)"
    by blast
  from r g have rules: "rules = [(''GENERAL-OVERVIEW'', ''new'')]" by simp
  have s: "\<lparr>rulesCache = [(''GENERAL-OVERVIEW'', ''old'')], lastScanTime = 5, scanCount = 1\<rparr>
           \<lparr>rulesCache := [(''GENERAL-OVERVIEW'', ''new'')], lastScanTime := 10, scanCount := Suc (scanCount
             \<lparr>rulesCache = [(''GENERAL-OVERVIEW'', ''old'')], lastScanTime = 5, scanCount = 1\<rparr>)\<rparr> =
           \<lparr>rulesCache = [(''GENERAL-OVERVIEW'', ''new'')], lastScanTime = 10, scanCount = 2\<rparr>"
    by simp
  show ?thesis using a b unfolding rules c s by (rule conjI)
qed

section \<open>The query surface\<close>

text \<open>
  C9. \<^verbatim>\<open>getAvailableRuleTypes\<close> returns the keys of the object that the read returns,
  in their order, followed by \<^verbatim>\<open>ALL\<close>; it never throws, and \<^verbatim>\<open>ALL\<close> is there also
  when the object is empty.
\<close>

theorem listKeys_keys_plus_ALL:
  "\<exists>rules st'. getCachedProjectRules dir now st = (Inr rules, st') \<and>
     getAvailableRuleTypes dir now st = (Inr (map fst rules @ [''ALL'']), st') \<and>
     set (map fst rules @ [''ALL'']) = fst ` set rules \<union> {''ALL''}"
proof -
  obtain r where r: "getProjectRules dir = Inr r"
    using getProjectRules_total by blast
  obtain res st' where c: "getCachedProjectRules dir now st = (res, st')"
    by (cases "getCachedProjectRules dir now st")
  then obtain rules where "res = Inr rules"
    by (auto simp: getCachedProjectRules_def r split: if_splits)
  with c show ?thesis by (simp add: getAvailableRuleTypes_def)
qed

theorem listKeys_keys_plus_ALL_witness:
  "getAvailableRuleTypes (Present (Inr [])) 0 initial_state =
     (Inr [''ALL''], \<lparr>rulesCache = [], lastScanTime = 0, scanCount = Suc 0\<rparr>)"
  using listKeys_keys_plus_ALL [of "Present (Inr [])" 0 initial_state]
  by (simp add: getAvailableRuleTypes_def getCachedProjectRules_def getProjectRules_def
      initial_state_def)

lemma read_returns_cache:
  assumes "getCachedProjectRules dir now st = (Inr rules, st')"
  shows "rules = rulesCache st'"
proof -
  obtain r where r: "getProjectRules dir = Inr r"
    using getProjectRules_total by blast
  show ?thesis using assms by (auto simp: getCachedProjectRules_def r split: if_splits)
qed

lemma read_keeps_scanned:
  assumes "scanned (rulesCache st)"
  shows "scanned (rulesCache (snd (getCachedProjectRules dir now st)))"
proof -
  obtain r where r: "getProjectRules dir = Inr r"
    using getProjectRules_total by blast
  then have "scanned r" by (rule getProjectRules_scanned)
  with assms show ?thesis by (simp add: getCachedProjectRules_def r)
qed

lemma reachable_scanned: "reachable st \<Longrightarrow> scanned (rulesCache st)"
proof (induction rule: reachable.induct)
  case reachable_initial
  show ?case by (simp add: initial_state_def scanned_def)
next
  case (reachable_read st dir now)
  then show ?case by (simp add: read_keeps_scanned)
next
  case (reachable_change st ev)
  then show ?case
    by (auto simp: watchCallback_def invalidate_def scanned_def split: option.splits)
next
  case (reachable_restart st)
  show ?case by (simp add: invalidate_def scanned_def)
qed

lemma read_scanned:
  assumes "reachable st" and "getCachedProjectRules dir now st = (Inr rules, st')"
  shows "scanned rules"
proof -
  have "reachable (snd (getCachedProjectRules dir now st))"
    using assms(1) by (rule reachable_read)
  then have "scanned (rulesCache st')" using assms(2) by (auto dest: reachable_scanned)
  then show ?thesis using read_returns_cache [OF assms(2)] by simp
qed

lemma distinct_key_once:
  "distinct (map fst rules) \<Longrightarrow> k \<in> fst ` set rules \<Longrightarrow>
   length (filter (\<lambda>e. fst e = k) rules) = 1"
proof (induction rules)
  case Nil
  then show ?case by simp
next
  case (Cons a rules)
  show ?case
  proof (cases "fst a = k")
    case True
    with Cons.prems have "k \<notin> fst ` set rules" by simp
    then have "filter (\<lambda>e. fst e = k) rules = []"
      by (force simp: filter_empty_conv)
    with True show ?thesis by simp
  next
    case False
    with Cons show ?thesis by auto
  qed
qed

section \<open>The text of all rules\<close>

lemma starts_inside_iff:
  "starts_inside sep s = (\<exists>i < length s. startsWith (drop i (s @ sep)) sep)"
  by (auto simp: starts_inside_def list_ex_iff)

lemma starts_inside_Cons:
  assumes "\<not> starts_inside sep (c # cs)"
  shows "\<not> startsWith ((c # cs) @ sep) sep" and "\<not> starts_inside sep cs"
proof -
  show "\<not> startsWith ((c # cs) @ sep) sep"
    using assms unfolding starts_inside_iff by (auto dest: spec [of _ 0])
  show "\<not> starts_inside sep cs"
  proof
    assume "starts_inside sep cs"
    then obtain i where "i < length cs" "startsWith (drop i (cs @ sep)) sep"
      unfolding starts_inside_iff by blast
    then have "Suc i < length (c # cs) \<and> startsWith (drop (Suc i) ((c # cs) @ sep)) sep"
      by simp
    then have "starts_inside sep (c # cs)" unfolding starts_inside_iff by blast
    with assms show False by simp
  qed
qed

lemma startsWith_length: "startsWith s p \<Longrightarrow> length p \<le> length s"
proof -
  assume "startsWith s p"
  then have "length (take (length p) s) = length p" by (simp only: startsWith_def)
  then show ?thesis by (simp only: length_take)
qed

lemma startsWith_append:
  "length p \<le> length s \<Longrightarrow> startsWith (s @ t) p = startsWith s p"
  by (simp add: startsWith_def)

lemma split_acc_piece:
  assumes "sep \<noteq> []" and "\<not> starts_inside sep x"
  shows "split_acc (x @ sep @ rest) sep piece = (piece @ x) # split_acc rest sep []"
  using assms(2)
proof (induction x arbitrary: piece)
  case Nil
  obtain c cs where sep: "sep = c # cs" using assms(1) by (cases sep) auto
  have "startsWith (sep @ rest) sep" by (simp add: startsWith_def)
  then show ?case using assms(1) by (simp add: sep)
next
  case (Cons c cs)
  have "\<not> startsWith ((c # cs) @ sep) sep" and later: "\<not> starts_inside sep cs"
    using starts_inside_Cons [OF Cons.prems] by simp_all
  then have first: "\<not> startsWith ((c # cs) @ sep @ rest) sep"
    using startsWith_append [of sep "(c # cs) @ sep" rest] by simp
  show ?case using first Cons.IH [OF later, of "piece @ [c]"] by simp
qed

lemma split_acc_last:
  assumes "\<not> starts_inside sep x"
  shows "split_acc x sep piece = [piece @ x]"
  using assms
proof (induction x arbitrary: piece)
  case Nil
  show ?case by simp
next
  case (Cons c cs)
  have n0: "\<not> startsWith ((c # cs) @ sep) sep" and later: "\<not> starts_inside sep cs"
    using starts_inside_Cons [OF Cons.prems] by simp_all
  have first: "\<not> (sep \<noteq> [] \<and> startsWith (c # cs) sep)"
  proof
    assume a: "sep \<noteq> [] \<and> startsWith (c # cs) sep"
    then have "length sep \<le> length (c # cs)" by (intro startsWith_length) blast
    then have "startsWith ((c # cs) @ sep) sep = startsWith (c # cs) sep"
      by (rule startsWith_append)
    with a n0 show False by blast
  qed
  show ?case using first Cons.IH [OF later, of "piece @ [c]"] by simp
qed

lemma split_join:
  assumes "sep \<noteq> []" and "xs \<noteq> []" and "\<forall>x \<in> set xs. \<not> starts_inside sep x"
  shows "split (join xs sep) sep = xs"
  using assms
proof (induction xs sep rule: join.induct)
  case (1 sep)
  then show ?case by simp
next
  case (2 x sep)
  then show ?case by (simp add: split_def split_acc_last)
next
  case (3 x y ys sep)
  then have "split (join (y # ys) sep) sep = y # ys" by simp
  moreover have "split_acc (x @ sep @ join (y # ys) sep) sep [] =
     ([] @ x) # split_acc (join (y # ys) sep) sep []"
    using 3 by (intro split_acc_piece) simp_all
  ultimately show ?case by (simp add: split_def)
qed

lemma join_Cons_concat: "join (x # xs) sep = x @ concat (map (\<lambda>y. sep @ y) xs)"
  by (induction xs arbitrary: x) simp_all

lemma label_prefix:
  assumes "CHR 0x0A \<notin> set k" and "CHR 0x0A \<notin> set k'"
  shows "startsWith (k' @ ''\<newline>\<newline>'' @ v) (k @ ''\<newline>\<newline>'') = (k' = k)"
  using assms
proof (induction k arbitrary: k')
  case Nil
  then show ?case by (cases k') (auto simp: startsWith_def)
next
  case (Cons a k)
  show ?case
  proof (cases k')
    case Nil
    with Cons.prems show ?thesis by (auto simp: startsWith_def)
  next
    case (Cons b k0)
    with Cons.prems Cons.IH [of k0] show ?thesis by (auto simp: startsWith_def)
  qed
qed

lemma section_label:
  assumes "CHR 0x0A \<notin> set k" and "CHR 0x0A \<notin> set k'"
  shows "startsWith (''## '' @ k' @ ''\<newline>\<newline>'' @ v) (''## '' @ k @ ''\<newline>\<newline>'') = (k' = k)"
  using label_prefix [OF assms, of v] by (simp add: startsWith_def)

lemma filter_sections:
  assumes "\<forall>e \<in> set rules. CHR 0x0A \<notin> set (fst e)" and "CHR 0x0A \<notin> set k"
  shows "filter (\<lambda>s. startsWith s (''## '' @ k @ ''\<newline>\<newline>''))
           (map (\<lambda>e. ''## '' @ fst e @ ''\<newline>\<newline>'' @ snd e) rules) =
         map (\<lambda>e. ''## '' @ fst e @ ''\<newline>\<newline>'' @ snd e) (filter (\<lambda>e. fst e = k) rules)"
  using assms(1)
proof (induction rules)
  case Nil
  show ?case by simp
next
  case (Cons e rules)
  have "startsWith (''## '' @ fst e @ ''\<newline>\<newline>'' @ snd e) (''## '' @ k @ ''\<newline>\<newline>'') = (fst e = k)"
    using Cons.prems assms(2) by (intro section_label) simp_all
  with Cons show ?case by simp
qed

text \<open>
  C8, as the code has it. In every reachable state the text returned for \<^verbatim>\<open>ALL\<close> is
  the sections of the entries of the object that the read returns, one per entry and in
  the object's order, with the delimiter between two sections; the section of an entry is
  \<^verbatim>\<open>## \<close>, its key, an empty line and its content. Contents are not escaped. When
  the object is not empty, no key contains a line feed and the delimiter begins inside no
  section, cutting the text at the delimiter gives these sections back, and every key that
  \<^verbatim>\<open>getAvailableRuleTypes\<close> lists, other than \<^verbatim>\<open>ALL\<close>, labels exactly one of
  them.
\<close>

theorem get_ALL_sections:
  assumes "reachable st" and "getCachedProjectRules dir now st = (Inr rules, st')"
  shows "\<exists>out keys.
     callTool dir now ''get_project_rules'' (Some ''ALL'') st = (Inr (Str out), st') \<and>
     getAvailableRuleTypes dir now st = (Inr keys, st') \<and>
     out = (case rules of
              [] \<Rightarrow> []
            | e # es \<Rightarrow>
                (''## '' @ fst e @ ''\<newline>\<newline>'' @ snd e) @
                concat (map (\<lambda>e'. ''\<newline>\<newline>---\<newline>\<newline>'' @
                                    ''## '' @ fst e' @ ''\<newline>\<newline>'' @ snd e') es)) \<and>
     (rules \<noteq> [] \<and>
      (\<forall>e \<in> set rules. CHR 0x0A \<notin> set (fst e) \<and>
         \<not> starts_inside ''\<newline>\<newline>---\<newline>\<newline>''
             (''## '' @ fst e @ ''\<newline>\<newline>'' @ snd e)) \<longrightarrow>
        split out ''\<newline>\<newline>---\<newline>\<newline>'' =
          map (\<lambda>e. ''## '' @ fst e @ ''\<newline>\<newline>'' @ snd e) rules \<and>
        (\<forall>k \<in> set keys - {''ALL''}.
           length (filter (\<lambda>s. startsWith s (''## '' @ k @ ''\<newline>\<newline>''))
                     (split out ''\<newline>\<newline>---\<newline>\<newline>'')) = 1))"
proof -
  let ?sec = "\<lambda>e::string \<times> string. ''## '' @ fst e @ ''\<newline>\<newline>'' @ snd e"
  let ?d = "''\<newline>\<newline>---\<newline>\<newline>''"
  let ?out = "join (map sectionOf rules) delimiter"
  have sec: "sectionOf = ?sec" by (rule ext) (simp add: sectionOf_def)
  have d: "delimiter = ?d" by (simp add: delimiter_def)
  have call: "callTool dir now ''get_project_rules'' (Some ''ALL'') st = (Inr (Str ?out), st')"
    using assms(2) by (simp add: callTool_def ruleText_def)
  have keys: "getAvailableRuleTypes dir now st = (Inr (map fst rules @ [''ALL'']), st')"
    using assms(2) by (simp add: getAvailableRuleTypes_def)
  have shape: "?out = (case rules of [] \<Rightarrow> [] | e # es \<Rightarrow> ?sec e @ concat (map (\<lambda>e'. ?d @ ?sec e') es))"
    unfolding sec d by (cases rules) (simp_all add: join_Cons_concat comp_def)
  have dist: "distinct (map fst rules)"
    using read_scanned [OF assms] by (simp add: scanned_def)
  have parse: "split ?out ?d = map ?sec rules \<and>
        (\<forall>k \<in> set (map fst rules @ [''ALL'']) - {''ALL''}.
           length (filter (\<lambda>s. startsWith s (''## '' @ k @ ''\<newline>\<newline>'')) (split ?out ?d)) = 1)"
    if ne: "rules \<noteq> []"
      and clean: "\<forall>e \<in> set rules. CHR 0x0A \<notin> set (fst e) \<and> \<not> starts_inside ?d (?sec e)"
  proof -
    have "split (join (map ?sec rules) ?d) ?d = map ?sec rules"
      using ne clean by (intro split_join) auto
    then have sp: "split ?out ?d = map ?sec rules" unfolding sec d .
    have "length (filter (\<lambda>s. startsWith s (''## '' @ k @ ''\<newline>\<newline>'')) (split ?out ?d)) = 1"
      if k: "k \<in> fst ` set rules" for k
    proof -
      have nl: "CHR 0x0A \<notin> set k" using k clean by auto
      have "filter (\<lambda>s. startsWith s (''## '' @ k @ ''\<newline>\<newline>'')) (map ?sec rules) =
            map ?sec (filter (\<lambda>e. fst e = k) rules)"
        using clean nl by (intro filter_sections) auto
      then show ?thesis using distinct_key_once [OF dist k] by (simp add: sp)
    qed
    with sp show ?thesis by auto
  qed
  show ?thesis
    apply (rule exI [of _ ?out])
    apply (rule exI [of _ "map fst rules @ [''ALL'']"])
    using call keys shape parse by blast
qed

theorem get_ALL_sections_witness:
  "callTool
      (Present (Inr [Dirent ''general'' True
         (Inr [(''README.md'', Inr ''# Overview''), (''RULES.md'', Inr ''# Rules'')])])) 0
      ''get_project_rules'' (Some ''ALL'') initial_state =
     (Inr (Str ''## GENERAL-OVERVIEW\<newline>\<newline># Overview\<newline>\<newline>---\<newline>\<newline>## GENERAL-RULES\<newline>\<newline># Rules''),
      \<lparr>rulesCache = [(''GENERAL-OVERVIEW'', ''# Overview''), (''GENERAL-RULES'', ''# Rules'')],
         lastScanTime = 0, scanCount = 1\<rparr>) \<and>
   split ''## GENERAL-OVERVIEW\<newline>\<newline># Overview\<newline>\<newline>---\<newline>\<newline>## GENERAL-RULES\<newline>\<newline># Rules''
      ''\<newline>\<newline>---\<newline>\<newline>'' =
     [''## GENERAL-OVERVIEW\<newline>\<newline># Overview'', ''## GENERAL-RULES\<newline>\<newline># Rules''] \<and>
   length (filter (\<lambda>s. startsWith s ''## GENERAL-RULES\<newline>\<newline>'')
     (split ''## GENERAL-OVERVIEW\<newline>\<newline># Overview\<newline>\<newline>---\<newline>\<newline>## GENERAL-RULES\<newline>\<newline># Rules''
        ''\<newline>\<newline>---\<newline>\<newline>'')) = 1"
proof -
  have c: "getCachedProjectRules
      (Present (Inr [Dirent ''general'' True
         (Inr [(''README.md'', Inr ''# Overview''), (''RULES.md'', Inr ''# Rules'')])])) 0
      initial_state =
     (Inr [(''GENERAL-OVERVIEW'', ''# Overview''), (''GENERAL-RULES'', ''# Rules'')],
      \<lparr>rulesCache = [(''GENERAL-OVERVIEW'', ''# Overview''), (''GENERAL-RULES'', ''# Rules'')],
         lastScanTime = 0, scanCount = 1\<rparr>)"
    by (simp add: getCachedProjectRules_def getProjectRules_def initial_state_def
        entry_body_def ruleKey_def toUpperCase_def upper_char_def endsWith_def startsWith_def)
  have clean: "\<forall>e \<in> set [(''GENERAL-OVERVIEW'', ''# Overview''), (''GENERAL-RULES'', ''# Rules'')].
      CHR 0x0A \<notin> set (fst e) \<and>
      \<not> starts_inside ''\<newline>\<newline>---\<newline>\<newline>'' (''## '' @ fst e @ ''\<newline>\<newline>'' @ snd e)"
    by (simp add: starts_inside_def startsWith_def upt_rec)
  have ne: "[(''GENERAL-OVERVIEW'', ''# Overview''), (''GENERAL-RULES'', ''# Rules'')] \<noteq> []"
    by simp
  have e: "callTool
      (Present (Inr [Dirent ''general'' True
         (Inr [(''README.md'', Inr ''# Overview''), (''RULES.md'', Inr ''# Rules'')])])) 0
      ''get_project_rules'' (Some ''ALL'') initial_state =
     (Inr (Str ''## GENERAL-OVERVIEW\<newline>\<newline># Overview\<newline>\<newline>---\<newline>\<newline>## GENERAL-RULES\<newline>\<newline># Rules''),
      \<lparr>rulesCache = [(''GENERAL-OVERVIEW'', ''# Overview''), (''GENERAL-RULES'', ''# Rules'')],
         lastScanTime = 0, scanCount = 1\<rparr>)"
    by (simp add: callTool_def c ruleText_def sectionOf_def delimiter_def)
  have l: "getAvailableRuleTypes
      (Present (Inr [Dirent ''general'' True
         (Inr [(''README.md'', Inr ''# Overview''), (''RULES.md'', Inr ''# Rules'')])])) 0
      initial_state =
     (Inr [''GENERAL-OVERVIEW'', ''GENERAL-RULES'', ''ALL''],
      \<lparr>rulesCache = [(''GENERAL-OVERVIEW'', ''# Overview''), (''GENERAL-RULES'', ''# Rules'')],
         lastScanTime = 0, scanCount = 1\<rparr>)"
    by (simp add: getAvailableRuleTypes_def c)
  from get_ALL_sections [OF reachable_initial c] obtain out keys where
    o: "callTool
      (Present (Inr [Dirent ''general'' True
         (Inr [(''README.md'', Inr ''# Overview''), (''RULES.md'', Inr ''# Rules'')])])) 0
      ''get_project_rules'' (Some ''ALL'') initial_state =
      (Inr (Str out),
       \<lparr>rulesCache = [(''GENERAL-OVERVIEW'', ''# Overview''), (''GENERAL-RULES'', ''# Rules'')],
         lastScanTime = 0, scanCount = 1\<rparr>)" and
    k: "getAvailableRuleTypes
      (Present (Inr [Dirent ''general'' True
         (Inr [(''README.md'', Inr ''# Overview''), (''RULES.md'', Inr ''# Rules'')])])) 0
      initial_state =
      (Inr keys,
       \<lparr>rulesCache = [(''GENERAL-OVERVIEW'', ''# Overview''), (''GENERAL-RULES'', ''# Rules'')],
         lastScanTime = 0, scanCount = 1\<rparr>)" and
    p: "split out ''\<newline>\<newline>---\<newline>\<newline>'' =
          map (\<lambda>e. ''## '' @ fst e @ ''\<newline>\<newline>'' @ snd e)
            [(''GENERAL-OVERVIEW'', ''# Overview''), (''GENERAL-RULES'', ''# Rules'')]" and
    q: "\<forall>k \<in> set keys - {''ALL''}.
           length (filter (\<lambda>s. startsWith s (''## '' @ k @ ''\<newline>\<newline>''))
                     (split out ''\<newline>\<newline>---\<newline>\<newline>'')) = 1"
    using ne clean by blast
  from o e have out: "out = ''## GENERAL-OVERVIEW\<newline>\<newline># Overview\<newline>\<newline>---\<newline>\<newline>## GENERAL-RULES\<newline>\<newline># Rules''"
    by simp
  from k l have keys: "keys = [''GENERAL-OVERVIEW'', ''GENERAL-RULES'', ''ALL'']"
    by simp
  have "''GENERAL-RULES'' \<in> set keys - {''ALL''}" by (simp add: keys)
  with q have "length (filter (\<lambda>s. startsWith s (''## '' @ ''GENERAL-RULES'' @ ''\<newline>\<newline>''))
                     (split out ''\<newline>\<newline>---\<newline>\<newline>'')) = 1"
    by blast
  then show ?thesis using e p unfolding out by simp
qed

text \<open>
  C8 as stated fails on a content that holds the delimiter and a heading: with
  \<^verbatim>\<open>g/A.md\<close> containing the delimiter followed by \<^verbatim>\<open>## G-B\<close> and an empty line,
  the text for \<^verbatim>\<open>ALL\<close> cuts into three sections, two of them labelled
  \<^verbatim>\<open>G-B\<close>, while \<^verbatim>\<open>getAvailableRuleTypes\<close> lists that key once.
\<close>

theorem unescaped_content_counterexample:
  "callTool
      (Present (Inr [Dirent ''g'' True
         (Inr [(''A.md'', Inr ''x\<newline>\<newline>---\<newline>\<newline>## G-B\<newline>\<newline>y''), (''B.md'', Inr ''z'')])])) 0
      ''get_project_rules'' (Some ''ALL'') initial_state =
     (Inr (Str ''## G-A\<newline>\<newline>x\<newline>\<newline>---\<newline>\<newline>## G-B\<newline>\<newline>y\<newline>\<newline>---\<newline>\<newline>## G-B\<newline>\<newline>z''),
      \<lparr>rulesCache = [(''G-A'', ''x\<newline>\<newline>---\<newline>\<newline>## G-B\<newline>\<newline>y''), (''G-B'', ''z'')],
         lastScanTime = 0, scanCount = 1\<rparr>) \<and>
   getAvailableRuleTypes
      (Present (Inr [Dirent ''g'' True
         (Inr [(''A.md'', Inr ''x\<newline>\<newline>---\<newline>\<newline>## G-B\<newline>\<newline>y''), (''B.md'', Inr ''z'')])])) 0
      initial_state =
     (Inr [''G-A'', ''G-B'', ''ALL''],
      \<lparr>rulesCache = [(''G-A'', ''x\<newline>\<newline>---\<newline>\<newline>## G-B\<newline>\<newline>y''), (''G-B'', ''z'')],
         lastScanTime = 0, scanCount = 1\<rparr>) \<and>
   split ''## G-A\<newline>\<newline>x\<newline>\<newline>---\<newline>\<newline>## G-B\<newline>\<newline>y\<newline>\<newline>---\<newline>\<newline>## G-B\<newline>\<newline>z''
      ''\<newline>\<newline>---\<newline>\<newline>'' =
     [''## G-A\<newline>\<newline>x'', ''## G-B\<newline>\<newline>y'', ''## G-B\<newline>\<newline>z''] \<and>
   length (filter (\<lambda>s. startsWith s ''## G-B\<newline>\<newline>'')
     [''## G-A\<newline>\<newline>x'', ''## G-B\<newline>\<newline>y'', ''## G-B\<newline>\<newline>z'']) = 2"
  by (simp add: callTool_def getAvailableRuleTypes_def getCachedProjectRules_def
      getProjectRules_def initial_state_def entry_body_def ruleKey_def toUpperCase_def
      upper_char_def endsWith_def startsWith_def ruleText_def sectionOf_def delimiter_def
      split_def)

text \<open>
  C7 fails on the code for a name that \<^verbatim>\<open>Object.prototype\<close> defines: the key
  \<^verbatim>\<open>constructor\<close> is no key of the scanned object, yet \<^verbatim>\<open>rules[ruleType]\<close> reads
  the inherited function, which is truthy, and the handler returns it as the text in
  place of throwing \<^verbatim>\<open>Unknown rule type\<close>.
\<close>

theorem inherited_property_returned:
  "getCachedProjectRules
      (Present (Inr [Dirent ''general'' True (Inr [(''README.md'', Inr ''# Overview'')])])) 0
      initial_state =
     (Inr [(''GENERAL-OVERVIEW'', ''# Overview'')],
      \<lparr>rulesCache = [(''GENERAL-OVERVIEW'', ''# Overview'')], lastScanTime = 0, scanCount = 1\<rparr>) \<and>
   ''constructor'' \<notin> fst ` set [(''GENERAL-OVERVIEW'', ''# Overview'')] \<and>
   callTool
      (Present (Inr [Dirent ''general'' True (Inr [(''README.md'', Inr ''# Overview'')])])) 0
      ''get_project_rules'' (Some ''constructor'') initial_state =
     (Inr (Inherited ''constructor''),
      \<lparr>rulesCache = [(''GENERAL-OVERVIEW'', ''# Overview'')], lastScanTime = 0, scanCount = 1\<rparr>)"
  by (simp add: callTool_def getCachedProjectRules_def getProjectRules_def initial_state_def
      entry_body_def ruleKey_def toUpperCase_def upper_char_def endsWith_def startsWith_def
      ruleText_def get_property_def object_prototype_keys_def)

text \<open>
  For every other name the handler returns the content of a key of the object, when that
  content is not empty, and throws for a name that is no key of the object.
\<close>

lemma ruleText_present_or_unknown:
  assumes "k \<noteq> ''ALL''" and "distinct (map fst rules)"
  shows "((k, v) \<in> set rules \<and> v \<noteq> [] \<longrightarrow> ruleText rules k = Inr (Str v)) \<and>
         (k \<notin> fst ` set rules \<and> k \<notin> set object_prototype_keys \<longrightarrow>
            ruleText rules k = Inl (Error (''Unknown rule type: '' @ k)))"
proof (intro conjI impI)
  assume "(k, v) \<in> set rules \<and> v \<noteq> []"
  then have "map_of rules k = Some v" and "v \<noteq> []"
    using assms(2) by simp_all
  then show "ruleText rules k = Inr (Str v)"
    using assms(1) by (simp add: ruleText_def get_property_def)
next
  assume "k \<notin> fst ` set rules \<and> k \<notin> set object_prototype_keys"
  then have "map_of rules k = None" and "k \<notin> set object_prototype_keys"
    by (simp_all add: map_of_eq_None_iff)
  then show "ruleText rules k = Inl (Error (''Unknown rule type: '' @ k))"
    using assms(1) by (simp add: ruleText_def get_property_def)
qed

text \<open>
  C10. In every reachable state, a call for a key whose content in the object that the
  read returns is the empty string throws \<^verbatim>\<open>Unknown rule type\<close>, and the outcome is
  the one the same object without that key gives: the condition reads the truthiness of
  the stored content, which the empty string and a missing key share.
\<close>

theorem empty_content_unknown:
  assumes "reachable st" and "getCachedProjectRules dir now st = (Inr rules, st')"
    and "(k, []) \<in> set rules"
  shows "callTool dir now ''get_project_rules'' (Some k) st =
           (Inl (Error (''Unknown rule type: '' @ k)), st') \<and>
         ruleText (AList.delete k rules) k = ruleText rules k"
proof -
  have s: "scanned rules" using assms(1,2) by (rule read_scanned)
  then have m: "map_of rules k = Some []"
    using assms(3) by (simp add: scanned_def)
  have h: "CHR ''-'' \<in> set k"
    using s assms(3) by (auto simp: scanned_def list_all_iff)
  then have a: "k \<noteq> ''ALL''" by auto
  have p: "k \<notin> set object_prototype_keys"
    using h by (auto simp: object_prototype_keys_def)
  have d: "map_of (AList.delete k rules) k = None"
    by (simp add: delete_conv)
  have "ruleText rules k = Inl (Error (''Unknown rule type: '' @ k))"
    using m a by (simp add: ruleText_def get_property_def)
  moreover have "ruleText (AList.delete k rules) k = Inl (Error (''Unknown rule type: '' @ k))"
    using d a p by (simp add: ruleText_def get_property_def)
  ultimately show ?thesis
    using assms(2) by (simp add: callTool_def)
qed

theorem empty_content_unknown_witness:
  "callTool (Present (Inr [Dirent ''g'' True (Inr [(''EMPTY.md'', Inr '''')])])) 0
      ''get_project_rules'' (Some ''G-EMPTY'') initial_state =
     (Inl (Error ''Unknown rule type: G-EMPTY''),
      \<lparr>rulesCache = [(''G-EMPTY'', '''')], lastScanTime = 0, scanCount = 1\<rparr>) \<and>
   ruleText [] ''G-EMPTY'' = ruleText [(''G-EMPTY'', '''')] ''G-EMPTY''"
proof -
  have c: "getCachedProjectRules
      (Present (Inr [Dirent ''g'' True (Inr [(''EMPTY.md'', Inr '''')])])) 0 initial_state =
     (Inr [(''G-EMPTY'', '''')],
      \<lparr>rulesCache = [(''G-EMPTY'', '''')], lastScanTime = 0, scanCount = 1\<rparr>)"
    by (simp add: getCachedProjectRules_def getProjectRules_def initial_state_def
        entry_body_def ruleKey_def toUpperCase_def upper_char_def endsWith_def startsWith_def)
  have m: "(''G-EMPTY'', []) \<in> set [(''G-EMPTY'', '''')]" by simp
  show ?thesis
    using empty_content_unknown [OF reachable_initial c m] by (simp add: AList.delete_eq)
qed

end
